theory Spec2Isabelle
  imports Main "HOL-Library.Word"
begin

unbundle bit_operations_syntax

section \<open>Capability model\<close>

text \<open>
  The \<open>Terminfo\<close> struct as \<open>Parse\<close> builds it (parse.go, the struct literal of a new
  entry, and \<open>ti.Uses\<close>). Go maps are partial functions; a Go string and a \<open>[]byte\<close> are byte
  sequences, here \<open>string\<close> (a list of 8-bit characters). Go's \<open>int\<close> is modelled as \<open>int\<close>:
  every index and counter below is bounded by the length of the input, so no wrap-around
  is reachable.
\<close>

record Terminfo =
  Names :: "string list"
  Bools :: "int \<rightharpoonup> bool"
  Nums :: "int \<rightharpoonup> int"
  Strings :: "int \<rightharpoonup> string"
  BoolsM :: "int \<rightharpoonup> bool"
  NumsM :: "int \<rightharpoonup> bool"
  StringsM :: "int \<rightharpoonup> bool"
  ExtBools :: "int \<rightharpoonup> bool"
  ExtNums :: "int \<rightharpoonup> int"
  ExtStrings :: "int \<rightharpoonup> string"
  ExtBoolNames :: "int \<rightharpoonup> string"
  ExtNumNames :: "int \<rightharpoonup> string"
  ExtStringNames :: "int \<rightharpoonup> string"
  Uses :: "string list"

definition newTerminfo :: "string list \<Rightarrow> Terminfo" where
  "newTerminfo names =
     \<lparr> Names = names, Bools = Map.empty, Nums = Map.empty, Strings = Map.empty,
       BoolsM = Map.empty, NumsM = Map.empty, StringsM = Map.empty,
       ExtBools = Map.empty, ExtNums = Map.empty, ExtStrings = Map.empty,
       ExtBoolNames = Map.empty, ExtNumNames = Map.empty, ExtStringNames = Map.empty,
       Uses = [] \<rparr>"

section \<open>Use resolver\<close>

text \<open>
  \<open>tis\<close> is a slice of pointers, each to a model of its own, and \<open>resolveUses\<close> writes
  through the pointer \<open>ti\<close>. The list of models is the store and a position in it is the
  pointer, so that a model that names itself or an earlier one is read in its current state.

  \<open>findTerminfo\<close>: the first model of the batch one of whose names is \<open>name\<close>, or nil.
\<close>

fun findTerminfo :: "Terminfo list \<Rightarrow> string \<Rightarrow> nat option" where
  "findTerminfo [] name = None"
| "findTerminfo (t # ts) name =
     (if name \<in> set (Names t) then Some 0 else map_option Suc (findTerminfo ts name))"

text \<open>
  One of the nine loops \<open>for k, v := range u.X { if _, ok := ti.X[k]; !ok { ti.X[k] = v } }\<close>:
  the result does not depend on the order in which Go walks the map.
\<close>

definition collect :: "('k \<rightharpoonup> 'v) \<Rightarrow> ('k \<rightharpoonup> 'v) \<Rightarrow> ('k \<rightharpoonup> 'v)" where
  "collect um tm = (\<lambda>k. case tm k of Some v \<Rightarrow> Some v | None \<Rightarrow> um k)"

definition collectCaps :: "Terminfo \<Rightarrow> Terminfo \<Rightarrow> Terminfo" where
  "collectCaps u t =
     t\<lparr> Bools := collect (Bools u) (Bools t),
        Nums := collect (Nums u) (Nums t),
        Strings := collect (Strings u) (Strings t),
        ExtBoolNames := collect (ExtBoolNames u) (ExtBoolNames t),
        ExtNumNames := collect (ExtNumNames u) (ExtNumNames t),
        ExtStringNames := collect (ExtStringNames u) (ExtStringNames t),
        ExtBools := collect (ExtBools u) (ExtBools t),
        ExtNums := collect (ExtNums u) (ExtNums t),
        ExtStrings := collect (ExtStrings u) (ExtStrings t) \<rparr>"

text \<open>
  \<open>resolveUses tis ti use\<close> with \<open>ti\<close> the model at position \<open>i\<close>. The recursion has no
  guard against a cycle of references, so the model carries fuel for the recursion depth:
  \<open>None\<close> is a recursion deeper than the fuel. \<open>resolveUsesList\<close> is the loop
  \<open>for _, uu := range u.Uses { resolveUses(tis, ti, uu) }\<close>.
\<close>

fun resolveUses :: "nat \<Rightarrow> Terminfo list \<Rightarrow> nat \<Rightarrow> string \<Rightarrow> Terminfo list option"
  and resolveUsesList :: "nat \<Rightarrow> Terminfo list \<Rightarrow> nat \<Rightarrow> string list \<Rightarrow> Terminfo list option"
where
  "resolveUses 0 tis i use = None"
| "resolveUses (Suc fuel) tis i use =
     (case findTerminfo tis use of
        None \<Rightarrow> Some tis
      | Some j \<Rightarrow>
          (case resolveUsesList fuel tis i (Uses (tis ! j)) of
             None \<Rightarrow> None
           | Some tis' \<Rightarrow> Some (tis'[i := collectCaps (tis' ! j) (tis' ! i)])))"
| "resolveUsesList fuel tis i [] = Some tis"
| "resolveUsesList fuel tis i (uu # us) =
     (case resolveUses fuel tis i uu of
        None \<Rightarrow> None
      | Some tis' \<Rightarrow> resolveUsesList fuel tis' i us)"

text \<open>
  The last loop of \<open>Parse\<close>: for every model in order, resolve each of its uses
  (a model without uses is skipped, which the empty list does as well).
\<close>

fun resolveAll :: "nat \<Rightarrow> Terminfo list \<Rightarrow> nat list \<Rightarrow> Terminfo list option" where
  "resolveAll fuel tis [] = Some tis"
| "resolveAll fuel tis (i # is) =
     (case resolveUsesList fuel tis i (Uses (tis ! i)) of
        None \<Rightarrow> None
      | Some tis' \<Rightarrow> resolveAll fuel tis' is)"

definition resolveBatch :: "nat \<Rightarrow> Terminfo list \<Rightarrow> Terminfo list option" where
  "resolveBatch fuel tis = resolveAll fuel tis [0 ..< length tis]"

section \<open>Source parser\<close>

subsection \<open>Library functions of Go that the parser calls\<close>

text \<open>\<open>strings.Split(s, sep)\<close> for a separator of one byte: never the empty list.\<close>

fun splitOn :: "'a \<Rightarrow> 'a list \<Rightarrow> 'a list list" where
  "splitOn sep [] = [[]]"
| "splitOn sep (c # cs) =
     (if c = sep then [] # splitOn sep cs
      else (case splitOn sep cs of [] \<Rightarrow> [[c]] | p # ps \<Rightarrow> (c # p) # ps))"

text \<open>
  \<open>unicode.IsSpace(rune(b))\<close> for a byte \<open>b\<close>, that is, a rune of Latin-1: tab, line feed,
  vertical tab, form feed, carriage return, space, U+0085 and U+00A0.
\<close>

definition isSpace :: "char \<Rightarrow> bool" where
  "isSpace c = (c \<in> set [CHR 0x09, CHR 0x0A, CHR 0x0B, CHR 0x0C, CHR 0x0D, CHR 0x20,
                          CHR 0x85, CHR 0xA0])"

text \<open>
  \<open>strings.TrimSpace\<close> removes the white-space runes at both ends of the UTF-8 decoded
  string. \<open>spaceSeqs\<close> lists the UTF-8 encodings of the runes \<open>unicode.IsSpace\<close> accepts
  (the six of ASCII, U+0085, U+00A0, U+1680, U+2000 to U+200A, U+2028, U+2029, U+202F,
  U+205F, U+3000); \<open>runeLen seqs s\<close> is the length of the one that \<open>s\<close> starts with, or 0.
\<close>

definition spaceSeqs :: "string list" where
  "spaceSeqs =
     [[CHR 0x09], [CHR 0x0A], [CHR 0x0B], [CHR 0x0C], [CHR 0x0D], [CHR 0x20],
      [CHR 0xC2, CHR 0x85], [CHR 0xC2, CHR 0xA0], [CHR 0xE1, CHR 0x9A, CHR 0x80],
      [CHR 0xE2, CHR 0x80, CHR 0x80], [CHR 0xE2, CHR 0x80, CHR 0x81],
      [CHR 0xE2, CHR 0x80, CHR 0x82], [CHR 0xE2, CHR 0x80, CHR 0x83],
      [CHR 0xE2, CHR 0x80, CHR 0x84], [CHR 0xE2, CHR 0x80, CHR 0x85],
      [CHR 0xE2, CHR 0x80, CHR 0x86], [CHR 0xE2, CHR 0x80, CHR 0x87],
      [CHR 0xE2, CHR 0x80, CHR 0x88], [CHR 0xE2, CHR 0x80, CHR 0x89],
      [CHR 0xE2, CHR 0x80, CHR 0x8A], [CHR 0xE2, CHR 0x80, CHR 0xA8],
      [CHR 0xE2, CHR 0x80, CHR 0xA9], [CHR 0xE2, CHR 0x80, CHR 0xAF],
      [CHR 0xE2, CHR 0x81, CHR 0x9F], [CHR 0xE3, CHR 0x80, CHR 0x80]]"

definition runeLen :: "string list \<Rightarrow> string \<Rightarrow> nat" where
  "runeLen seqs s =
     (case filter (\<lambda>p. take (length p) s = p) seqs of [] \<Rightarrow> 0 | p # _ \<Rightarrow> length p)"

function trimWith :: "string list \<Rightarrow> string \<Rightarrow> string" where
  "trimWith seqs s =
     (if runeLen seqs s = 0 then s else trimWith seqs (drop (runeLen seqs s) s))"
  by pat_completeness auto
termination
proof (relation "measure (\<lambda>(seqs, s). length s)")
  show "wf (measure (\<lambda>(seqs, s). length s))" by simp
next
  fix seqs :: "string list" and s :: string
  assume pos: "runeLen seqs s \<noteq> 0"
  have "runeLen seqs [] = 0"
    by (induction seqs) (auto simp: runeLen_def)
  with pos have "s \<noteq> []" by auto
  with pos show "((seqs, drop (runeLen seqs s) s), (seqs, s)) \<in> measure (\<lambda>(seqs, s). length s)"
    by simp
qed

definition TrimSpace :: "string \<Rightarrow> string" where
  "TrimSpace s = rev (trimWith (map rev spaceSeqs) (rev (trimWith spaceSeqs s)))"

text \<open>
  \<open>strconv.ParseUint(s, base, 32)\<close> for base 10 and 16, as the standard library documents
  it: the bytes are read in order; the empty string and a byte that is not a digit of the
  base give the value 0 and a syntax error; a value above \<open>2^32 - 1\<close> gives \<open>2^32 - 1\<close> and a
  range error. The result is the value and whether \<open>err\<close> is not nil.
\<close>

definition lower :: "char \<Rightarrow> nat" where
  "lower c = (of_char c :: nat) OR 32"

definition digitVal :: "char \<Rightarrow> nat option" where
  "digitVal c =
     (if 48 \<le> (of_char c :: nat) \<and> (of_char c :: nat) \<le> 57 then Some (of_char c - 48)
      else if 97 \<le> lower c \<and> lower c \<le> 122 then Some (lower c - 97 + 10)
      else None)"

fun parseDigits :: "nat \<Rightarrow> nat \<Rightarrow> string \<Rightarrow> nat \<times> bool" where
  "parseDigits base n [] = (n, False)"
| "parseDigits base n (c # cs) =
     (case digitVal c of
        None \<Rightarrow> (0, True)
      | Some d \<Rightarrow>
          if d \<ge> base then (0, True)
          else if n * base + d > 2 ^ 32 - 1 then (2 ^ 32 - 1, True)
          else parseDigits base (n * base + d) cs)"

definition ParseUint :: "string \<Rightarrow> nat \<Rightarrow> nat \<times> bool" where
  "ParseUint s base = (if s = [] then (0, True) else parseDigits base 0 s)"

subsection \<open>The state of \<open>Parse\<close>\<close>

text \<open>
  The tables \<open>boolNameCaps\<close>, \<open>numNameCaps\<close> and \<open>stringNameCaps\<close> of the standard
  capability names are declared outside the files at hand; they are a parameter.
\<close>

record catalog =
  boolNameCaps :: "string \<rightharpoonup> int"
  numNameCaps :: "string \<rightharpoonup> int"
  stringNameCaps :: "string \<rightharpoonup> int"

datatype escState = GROUND | INT' | NONE | CTRL | ESC

text \<open>A panic of the Go runtime or of the code, and the errors the binary reader returns.\<close>

datatype failure =
    PanicNilDeref
  | PanicWeirdFormat string
  | PanicWho
  | PanicIndex
  | PanicSlice
  | ErrBadMagic
  | ErrSmallFile
  | ErrBadString

text \<open>What \<open>log.Printf\<close> is called with.\<close>

datatype logmsg = InvalidNumber string | ShouldntBeHere string

text \<open>
  The variables of \<open>Parse\<close> that the closure \<open>addCap\<close> and the loop over the lines share.
  They are declared once, before the loop. \<open>ti\<close> is a pointer, nil before the first entry.
\<close>

record pstate =
  tis :: "Terminfo list"
  ti :: "Terminfo option"
  capName :: string
  esc :: escState
  buf :: string
  extBoolIdx :: int
  extNumIdx :: int
  extStringIdx :: int
  extBoolNameCaps :: "string \<rightharpoonup> int"
  extNumNameCaps :: "string \<rightharpoonup> int"
  extStringNameCaps :: "string \<rightharpoonup> int"
  logs :: "logmsg list"

definition initState :: pstate where
  "initState =
     \<lparr> tis = [], ti = None, capName = [], esc = GROUND, buf = [],
       extBoolIdx = 0, extNumIdx = 0, extStringIdx = 0,
       extBoolNameCaps = Map.empty, extNumNameCaps = Map.empty,
       extStringNameCaps = Map.empty, logs = [] \<rparr>"

subsection \<open>\<open>addCap\<close>\<close>

text \<open>
  The three cases of the closure \<open>addCap\<close>. Every branch of each case writes through \<open>ti\<close>,
  so a nil \<open>ti\<close> is a nil-pointer panic whatever the branch.
\<close>

definition addCapBool :: "catalog \<Rightarrow> pstate \<Rightarrow> failure + pstate" where
  "addCapBool cat st =
     (let name = buf st in
      case ti st of
        None \<Rightarrow> Inl PanicNilDeref
      | Some t \<Rightarrow>
          (case boolNameCaps cat name of
             Some cap \<Rightarrow> Inr (st\<lparr>ti := Some (t\<lparr>Bools := (Bools t)(cap \<mapsto> True)\<rparr>)\<rparr>)
           | None \<Rightarrow>
               (case extBoolNameCaps st name of
                  Some cap \<Rightarrow>
                    Inr (st\<lparr>ti := Some (t\<lparr>ExtBoolNames := (ExtBoolNames t)(cap \<mapsto> name),
                                          ExtBools := (ExtBools t)(cap \<mapsto> True)\<rparr>)\<rparr>)
                | None \<Rightarrow>
                    Inr (st\<lparr>extBoolNameCaps := (extBoolNameCaps st)(name \<mapsto> extBoolIdx st),
                            ti := Some (t\<lparr>ExtBoolNames := (ExtBoolNames t)(extBoolIdx st \<mapsto> name),
                                          ExtBools := (ExtBools t)(extBoolIdx st \<mapsto> True)\<rparr>),
                            extBoolIdx := extBoolIdx st + 1\<rparr>))))"

text \<open>
  The numeric case. When \<open>ParseUint\<close> fails the code logs and goes on: \<open>n\<close> is then the value
  \<open>ParseUint\<close> returned beside the error. \<open>int(n)\<close> keeps the value (\<open>n < 2^32\<close>, \<open>int\<close> of 64 bits).
\<close>

definition addCapNum :: "catalog \<Rightarrow> pstate \<Rightarrow> failure + pstate" where
  "addCapNum cat st =
     (let hex = (take 2 (buf st) = ''0x'');
          base = (if hex then 16 else 10);
          val = (if hex then drop 2 (buf st) else buf st);
          n = fst (ParseUint val base);
          err = snd (ParseUint val base);
          lg = (if err then logs st @ [InvalidNumber val] else logs st)
      in case ti st of
        None \<Rightarrow> Inl PanicNilDeref
      | Some t \<Rightarrow>
          (case numNameCaps cat (capName st) of
             Some cap \<Rightarrow>
               Inr (st\<lparr>ti := Some (t\<lparr>Nums := (Nums t)(cap \<mapsto> int n)\<rparr>),
                       capName := [], logs := lg\<rparr>)
           | None \<Rightarrow>
               (case extNumNameCaps st (capName st) of
                  Some cap \<Rightarrow>
                    Inr (st\<lparr>ti := Some (t\<lparr>ExtNumNames := (ExtNumNames t)(cap \<mapsto> capName st),
                                          ExtNums := (ExtNums t)(cap \<mapsto> int n)\<rparr>),
                            capName := [], logs := lg\<rparr>)
                | None \<Rightarrow>
                    Inr (st\<lparr>extNumNameCaps := (extNumNameCaps st)(capName st \<mapsto> extNumIdx st),
                            ti := Some (t\<lparr>ExtNumNames := (ExtNumNames t)(extNumIdx st \<mapsto> capName st),
                                          ExtNums := (ExtNums t)(extNumIdx st \<mapsto> int n)\<rparr>),
                            extNumIdx := extNumIdx st + 1,
                            capName := [], logs := lg\<rparr>))))"

definition addCapStr :: "catalog \<Rightarrow> pstate \<Rightarrow> failure + pstate" where
  "addCapStr cat st =
     (let val = buf st in
      case ti st of
        None \<Rightarrow> Inl PanicNilDeref
      | Some t \<Rightarrow>
          if capName st = ''use'' then
            Inr (st\<lparr>ti := Some (t\<lparr>Uses := Uses t @ [val]\<rparr>), capName := []\<rparr>)
          else
            (case stringNameCaps cat (capName st) of
               Some cap \<Rightarrow>
                 Inr (st\<lparr>ti := Some (t\<lparr>Strings := (Strings t)(cap \<mapsto> val)\<rparr>), capName := []\<rparr>)
             | None \<Rightarrow>
                 (case extStringNameCaps st (capName st) of
                    Some cap \<Rightarrow>
                      Inr (st\<lparr>ti := Some (t\<lparr>ExtStringNames := (ExtStringNames t)(cap \<mapsto> capName st),
                                            ExtStrings := (ExtStrings t)(cap \<mapsto> val)\<rparr>),
                              capName := []\<rparr>)
                  | None \<Rightarrow>
                      Inr (st\<lparr>extStringNameCaps :=
                                (extStringNameCaps st)(capName st \<mapsto> extStringIdx st),
                              ti := Some (t\<lparr>ExtStringNames :=
                                              (ExtStringNames t)(extStringIdx st \<mapsto> capName st),
                                            ExtStrings := (ExtStrings t)(extStringIdx st \<mapsto> val)\<rparr>),
                              extStringIdx := extStringIdx st + 1,
                              capName := []\<rparr>))))"

text \<open>The switch on \<open>typ\<close>, then \<open>buf.Reset()\<close> and \<open>esc = GROUND\<close>.\<close>

definition addCap :: "catalog \<Rightarrow> string \<Rightarrow> pstate \<Rightarrow> failure + pstate" where
  "addCap cat typ st =
     (case (if typ = ''bool'' then addCapBool cat st
            else if typ = ''num'' then addCapNum cat st
            else if typ = ''str'' then addCapStr cat st
            else Inl PanicWho) of
        Inl e \<Rightarrow> Inl e
      | Inr st' \<Rightarrow> Inr (st'\<lparr>buf := [], esc := GROUND\<rparr>))"

subsection \<open>The state machine over one continuation line\<close>

text \<open>
  One iteration of \<open>for i := 0; i < len(s); i++\<close> at the byte \<open>c = s[i]\<close>, with \<open>rest\<close> the
  bytes after it. The result is the new state and how many bytes of \<open>rest\<close> the iteration
  consumed as well (\<open>i = i + 2\<close> of the octal escape).
\<close>

definition stepGROUND :: "catalog \<Rightarrow> pstate \<Rightarrow> char \<Rightarrow> failure + pstate" where
  "stepGROUND cat st c =
     (if c = CHR ''='' then Inr (st\<lparr>capName := buf st, buf := [], esc := NONE\<rparr>)
      else if c = CHR ''#'' then Inr (st\<lparr>capName := buf st, buf := [], esc := INT'\<rparr>)
      else if c = CHR '','' then
        (case (if capName st = [] then addCap cat ''bool'' st
               else Inr (st\<lparr>logs := logs st @ [ShouldntBeHere (capName st)]\<rparr>)) of
           Inl e \<Rightarrow> Inl e
         | Inr st' \<Rightarrow> Inr (st'\<lparr>buf := []\<rparr>))
      else if c = CHR '' '' then Inr st
      else Inr (st\<lparr>buf := buf st @ [c]\<rparr>))"

definition stepINT :: "catalog \<Rightarrow> pstate \<Rightarrow> char \<Rightarrow> failure + pstate" where
  "stepINT cat st c =
     (if c = CHR '','' then
        (case addCap cat ''num'' st of
           Inl e \<Rightarrow> Inl e
         | Inr st' \<Rightarrow> Inr (st'\<lparr>esc := GROUND\<rparr>))
      else Inr (st\<lparr>buf := buf st @ [c]\<rparr>))"

definition stepNONE :: "catalog \<Rightarrow> pstate \<Rightarrow> char \<Rightarrow> failure + pstate" where
  "stepNONE cat st c =
     (if c = CHR 0x5C then Inr (st\<lparr>esc := ESC\<rparr>)
      else if c = CHR ''^'' then Inr (st\<lparr>esc := CTRL\<rparr>)
      else if c = CHR '' '' then Inr st
      else if c = CHR '','' then
        (case addCap cat ''str'' st of
           Inl e \<Rightarrow> Inl e
         | Inr st' \<Rightarrow> Inr (st'\<lparr>esc := GROUND\<rparr>))
      else Inr (st\<lparr>buf := buf st @ [c]\<rparr>))"

text \<open>\<open>c ^ 1<<6\<close> on a byte.\<close>

definition stepCTRL :: "pstate \<Rightarrow> char \<Rightarrow> failure + pstate" where
  "stepCTRL st c =
     Inr (st\<lparr>buf := buf st @ [char_of ((of_char c :: nat) XOR 64)], esc := NONE\<rparr>)"

definition isOctal :: "char \<Rightarrow> bool" where
  "isOctal c = (48 \<le> (of_char c :: nat) \<and> (of_char c :: nat) \<le> 55)"

text \<open>
  \<open>i+2 < len(s) && s[i+1] >= '0' && s[i+1] <= '7' && s[i+2] >= '0' && s[i+2] <= '7'\<close>:
  the two bytes after \<open>c\<close>, when both are there and octal digits.
\<close>

definition octalPair :: "string \<Rightarrow> (char \<times> char) option" where
  "octalPair rest =
     (case rest of
        d1 # d2 # _ \<Rightarrow> if isOctal d1 \<and> isOctal d2 then Some (d1, d2) else None
      | _ \<Rightarrow> None)"

text \<open>
  The byte \<open>((c - '0') * 64) + ((s[i+1] - '0') * 8) + (s[i+2] - '0')\<close>: arithmetic on \<open>uint8\<close>
  wraps modulo 256, which \<open>char_of\<close> does.
\<close>

definition octalByte :: "char \<Rightarrow> char \<Rightarrow> char \<Rightarrow> char" where
  "octalByte c d1 d2 =
     char_of (((of_char c :: nat) - 48) * 64 + ((of_char d1 :: nat) - 48) * 8
              + ((of_char d2 :: nat) - 48))"

definition stepESC :: "string \<Rightarrow> pstate \<Rightarrow> char \<Rightarrow> string \<Rightarrow> failure + (pstate \<times> nat)" where
  "stepESC s st c rest =
     (if c = CHR ''E'' \<or> c = CHR ''e'' then Inr (st\<lparr>buf := buf st @ [CHR 0x1B], esc := NONE\<rparr>, 0)
      else if isOctal c then
        (case octalPair rest of
           Some (d1, d2) \<Rightarrow> Inr (st\<lparr>buf := buf st @ [octalByte c d1 d2], esc := NONE\<rparr>, 2)
         | None \<Rightarrow>
             if c = CHR ''0'' then Inr (st\<lparr>buf := buf st @ [CHR 0x00], esc := NONE\<rparr>, 0)
             else Inr (st\<lparr>esc := NONE\<rparr>, 0))
      else if c = CHR ''n'' then Inr (st\<lparr>buf := buf st @ [CHR 0x0A], esc := NONE\<rparr>, 0)
      else if c = CHR ''r'' then Inr (st\<lparr>buf := buf st @ [CHR 0x0D], esc := NONE\<rparr>, 0)
      else if c = CHR ''t'' then Inr (st\<lparr>buf := buf st @ [CHR 0x09], esc := NONE\<rparr>, 0)
      else if c = CHR ''b'' then Inr (st\<lparr>buf := buf st @ [CHR 0x08], esc := NONE\<rparr>, 0)
      else if c = CHR ''f'' then Inr (st\<lparr>buf := buf st @ [CHR 0x0C], esc := NONE\<rparr>, 0)
      else if c = CHR ''s'' then Inr (st\<lparr>buf := buf st @ [CHR '' ''], esc := NONE\<rparr>, 0)
      else if c = CHR '','' then Inr (st\<lparr>buf := buf st @ [CHR '',''], esc := NONE\<rparr>, 0)
      else if c = CHR ''l'' then Inl (PanicWeirdFormat (''WTF: weird format: '' @ s))
      else Inr (st\<lparr>buf := buf st @ [c], esc := NONE\<rparr>, 0))"

definition step :: "catalog \<Rightarrow> string \<Rightarrow> pstate \<Rightarrow> char \<Rightarrow> string \<Rightarrow> failure + (pstate \<times> nat)"
where
  "step cat s st c rest =
     (case esc st of
        GROUND \<Rightarrow> map_sum id (\<lambda>st'. (st', 0)) (stepGROUND cat st c)
      | INT' \<Rightarrow> map_sum id (\<lambda>st'. (st', 0)) (stepINT cat st c)
      | NONE \<Rightarrow> map_sum id (\<lambda>st'. (st', 0)) (stepNONE cat st c)
      | CTRL \<Rightarrow> map_sum id (\<lambda>st'. (st', 0)) (stepCTRL st c)
      | ESC \<Rightarrow> stepESC s st c rest)"

text \<open>The loop over the bytes of the trimmed line \<open>s\<close>; \<open>cs\<close> is what is left of it.\<close>

function scan :: "catalog \<Rightarrow> string \<Rightarrow> pstate \<Rightarrow> string \<Rightarrow> failure + pstate" where
  "scan cat s st [] = Inr st"
| "scan cat s st (c # rest) =
     (case step cat s st c rest of
        Inl e \<Rightarrow> Inl e
      | Inr (st', skip) \<Rightarrow> scan cat s st' (drop skip rest))"
  by pat_completeness auto
termination
  by (relation "measure (\<lambda>(cat, s, st, cs). length cs)") auto

subsection \<open>The loop over the lines\<close>

text \<open>
  One iteration of \<open>for _, line := range strings.Split(src, "\n")\<close>. A comment or blank line
  is skipped; a line whose first byte is not white space closes the entry at hand and
  opens a new one; any other line goes through the state machine. Nothing but \<open>tis\<close> and
  \<open>ti\<close> is assigned when an entry opens.
\<close>

definition processLine :: "catalog \<Rightarrow> pstate \<Rightarrow> string \<Rightarrow> failure + pstate" where
  "processLine cat st line =
     (if take 1 line = ''#'' \<or> TrimSpace line = [] then Inr st
      else
        (case line of
           [] \<Rightarrow> Inl PanicIndex
         | c0 # _ \<Rightarrow>
             if \<not> isSpace c0 then
               (case splitOn (CHR '','') line of
                  [] \<Rightarrow> Inl PanicIndex
                | p0 # _ \<Rightarrow>
                    Inr (st\<lparr>tis := (case ti st of None \<Rightarrow> tis st | Some t \<Rightarrow> tis st @ [t]),
                            ti := Some (newTerminfo (splitOn (CHR ''|'') p0))\<rparr>))
             else scan cat (TrimSpace line) st (TrimSpace line)))"

fun parseLines :: "catalog \<Rightarrow> pstate \<Rightarrow> string list \<Rightarrow> failure + pstate" where
  "parseLines cat st [] = Inr st"
| "parseLines cat st (line # ls) =
     (case processLine cat st line of
        Inl e \<Rightarrow> Inl e
      | Inr st' \<Rightarrow> parseLines cat st' ls)"

text \<open>What \<open>Parse\<close> has in \<open>tis\<close> after \<open>if ti != nil { tis = append(tis, ti) }\<close>.\<close>

definition entries :: "pstate \<Rightarrow> Terminfo list" where
  "entries st = (case ti st of None \<Rightarrow> tis st | Some t \<Rightarrow> tis st @ [t])"

text \<open>\<open>Parse\<close> up to the comment \<open>Resolve uses\<close>: the source parser.\<close>

definition parseSource :: "catalog \<Rightarrow> string \<Rightarrow> failure + Terminfo list" where
  "parseSource cat src =
     map_sum id entries (parseLines cat initState (splitOn (CHR 0x0A) src))"

text \<open>
  \<open>Parse\<close>: the source parser, then the resolver. \<open>None\<close> is a resolution that recursed
  deeper than the fuel.
\<close>

definition Parse :: "nat \<Rightarrow> catalog \<Rightarrow> string \<Rightarrow> (failure + Terminfo list) option" where
  "Parse fuel cat src =
     (case parseSource cat src of
        Inl e \<Rightarrow> Some (Inl e)
      | Inr ts \<Rightarrow> map_option Inr (resolveBatch fuel ts))"

section \<open>Binary reader\<close>

type_synonym byte = "8 word"
type_synonym int16 = "16 word"

text \<open>
  Modelled from the spec: the declaration of the \<open>Terminfo\<close> that the reader fills
  (\<open>Names\<close>, \<open>BoolCaps\<close>, \<open>NumericCaps\<close>, \<open>StringCaps\<close>) is not among the files at hand. The
  spec gives each kind as a mapping from index to value in which absence is no entry; a
  model made by \<open>new(Terminfo)\<close> has no entry.
\<close>

record ReaderTerminfo =
  Names' :: "byte list list"
  BoolCaps :: "int \<rightharpoonup> bool"
  NumericCaps :: "int \<rightharpoonup> int"
  StringCaps :: "int \<rightharpoonup> byte list"

definition newReaderTerminfo :: ReaderTerminfo where
  "newReaderTerminfo =
     \<lparr> Names' = [], BoolCaps = Map.empty, NumericCaps = Map.empty, StringCaps = Map.empty \<rparr>"

text \<open>
  Modelled from the spec: \<open>littleEndian\<close> is declared outside the files at hand. The spec
  has every multi-byte integer little-endian, 16 bits, signed: the bytes at \<open>i\<close> and
  \<open>i + 1\<close>, the low one first. Reading past the end of a slice is Go's index panic.
\<close>

definition littleEndian :: "nat \<Rightarrow> byte list \<Rightarrow> failure + int16" where
  "littleEndian i b =
     (if i + 1 < length b then Inr (word_of_nat (unat (b ! i) + 256 * unat (b ! (i + 1))))
      else Inl PanicIndex)"

subsection \<open>The header\<close>

text \<open>\<open>type header [6]int16\<close>: a list of six words, and its methods.\<close>

type_synonym header = "int16 list"

definition badMagic :: "header \<Rightarrow> bool" where
  "badMagic h = (if h ! 0 = 0x11A then False else True)"

definition lenNames :: "header \<Rightarrow> int16" where
  "lenNames h = h ! 1"

definition lenBools :: "header \<Rightarrow> int16" where
  "lenBools h = h ! 2"

definition lenNumeric :: "header \<Rightarrow> int16" where
  "lenNumeric h = h ! 3 * 2"

definition lenStrings :: "header \<Rightarrow> int16" where
  "lenStrings h = h ! 4 * 2"

definition lenTable :: "header \<Rightarrow> int16" where
  "lenTable h = h ! 5"

definition lenFile :: "header \<Rightarrow> int16" where
  "lenFile h = h ! 1 + h ! 2 + h ! 3 + h ! 4 + h ! 5"

definition hlen :: "header \<Rightarrow> int16" where
  "hlen h = 12"

text \<open>Go's \<open>%\<close> truncates towards zero: the remainder has the sign of the dividend.\<close>

definition truncRem :: "int \<Rightarrow> int \<Rightarrow> int" where
  "truncRem a b = sgn a * (\<bar>a\<bar> mod \<bar>b\<bar>)"

definition skipNull :: "header \<Rightarrow> bool" where
  "skipNull h = (truncRem (sint (lenNames h + lenBools h)) 2 = 1)"

subsection \<open>The reader\<close>

record reader =
  r_pos :: int16
  r_ppos :: int16
  r_buf :: "byte list"
  r_ti :: ReaderTerminfo
  r_h :: header

text \<open>A reader fresh from \<open>readerPool.New\<close>.\<close>

definition newReader :: reader where
  "newReader =
     \<lparr> r_pos = 0, r_ppos = 0, r_buf = replicate 3000 0, r_ti = newReaderTerminfo,
       r_h = replicate 6 0 \<rparr>"

text \<open>
  The slice expression \<open>b[lo:hi]\<close>: a panic unless \<open>0 \<le> lo \<le> hi \<le> cap(b)\<close>. The buffer of
  a reader is always the result of \<open>make\<close>, so its capacity is its length.
\<close>

definition sliceBuf :: "byte list \<Rightarrow> int \<Rightarrow> int \<Rightarrow> failure + byte list" where
  "sliceBuf b lo hi =
     (if 0 \<le> lo \<and> lo \<le> hi \<and> hi \<le> int (length b)
      then Inr (take (nat hi - nat lo) (drop (nat lo) b))
      else Inl PanicSlice)"

definition slice :: "reader \<Rightarrow> failure + byte list" where
  "slice r = sliceBuf (r_buf r) (sint (r_ppos r)) (sint (r_pos r))"

definition sliceOff :: "reader \<Rightarrow> int16 \<Rightarrow> failure + (reader \<times> byte list)" where
  "sliceOff r off =
     (let r' = r\<lparr>r_ppos := r_pos r, r_pos := r_pos r + off\<rparr>
      in map_sum id (\<lambda>b. (r', b)) (slice r'))"

text \<open>The loop \<open>for i := 0; i < len(r.h); i++ { r.h[i] = littleEndian(i*2, r.buf) }\<close>.\<close>

fun readFields :: "byte list \<Rightarrow> nat list \<Rightarrow> failure + int16 list" where
  "readFields b [] = Inr []"
| "readFields b (i # is) =
     (case littleEndian (i * 2) b of
        Inl e \<Rightarrow> Inl e
      | Inr v \<Rightarrow> (case readFields b is of Inl e \<Rightarrow> Inl e | Inr vs \<Rightarrow> Inr (v # vs)))"

text \<open>
  \<open>readHeader\<close> on a file whose content is \<open>f\<close>, read from its start; errors of the file
  system are left out. \<open>len(r.h)\<close> is 6, the number of fields. \<open>io.ReadFull\<close> fills \<open>r.buf\<close>,
  which is as long as the file when the file is shorter than the buffer at hand.
\<close>

definition readHeader :: "reader \<Rightarrow> byte list \<Rightarrow> failure + reader" where
  "readHeader r f =
     (if length f < 6 then Inl ErrSmallFile
      else
        (let b = take (if length f < length (r_buf r) then length f else length (r_buf r)) f
         in case readFields b [0 ..< 6] of
              Inl e \<Rightarrow> Inl e
            | Inr hdr \<Rightarrow>
                if sint (lenFile hdr) > int (length b) then Inl ErrSmallFile
                else if badMagic hdr then Inl ErrBadMagic
                else Inr (r\<lparr>r_buf := b, r_h := hdr\<rparr>)))"

definition readNames :: "reader \<Rightarrow> failure + reader" where
  "readNames r =
     (let r1 = r\<lparr>r_ppos := hlen (r_h r), r_pos := hlen (r_h r) + lenNames (r_h r)\<rparr>
      in case slice r1 of
           Inl e \<Rightarrow> Inl e
         | Inr b \<Rightarrow> Inr (r1\<lparr>r_ti := newReaderTerminfo\<lparr>Names' := splitOn 0x7C b\<rparr>\<rparr>))"

text \<open>\<open>for i, b := range ... { if b == 1 { r.ti.BoolCaps[i] = true } }\<close>\<close>

fun setBools :: "byte list \<Rightarrow> int \<Rightarrow> (int \<rightharpoonup> bool) \<Rightarrow> (int \<rightharpoonup> bool)" where
  "setBools [] i m = m"
| "setBools (b # bs) i m = setBools bs (i + 1) (if b = 1 then m(i \<mapsto> True) else m)"

definition readBools :: "reader \<Rightarrow> failure + reader" where
  "readBools r =
     (case sliceOff r (lenBools (r_h r)) of
        Inl e \<Rightarrow> Inl e
      | Inr (r1, bs) \<Rightarrow>
          Inr (r1\<lparr>r_ti := (r_ti r1)\<lparr>BoolCaps := setBools bs 0 (BoolCaps (r_ti r1))\<rparr>,
                  r_pos := (if skipNull (r_h r1) then r_pos r1 + 1 else r_pos r1)\<rparr>))"

text \<open>The loop of \<open>readNumbers\<close> from \<open>j\<close> on.\<close>

function numbersLoop :: "byte list \<Rightarrow> nat \<Rightarrow> (int \<rightharpoonup> int) \<Rightarrow> failure + (int \<rightharpoonup> int)" where
  "numbersLoop nbuf j m =
     (if j < length nbuf then
        (case littleEndian j nbuf of
           Inl e \<Rightarrow> Inl e
         | Inr n \<Rightarrow>
             numbersLoop nbuf (j + 2) (if sint n > -1 then m(int j div 2 \<mapsto> sint n) else m))
      else Inr m)"
  by pat_completeness auto
termination
  by (relation "measure (\<lambda>(nbuf, j, m). length nbuf - j)") auto

definition readNumbers :: "reader \<Rightarrow> failure + reader" where
  "readNumbers r =
     (case sliceOff r (lenNumeric (r_h r)) of
        Inl e \<Rightarrow> Inl e
      | Inr (r1, nbuf) \<Rightarrow>
          (case numbersLoop nbuf 0 (NumericCaps (r_ti r1)) of
             Inl e \<Rightarrow> Inl e
           | Inr m \<Rightarrow> Inr (r1\<lparr>r_ti := (r_ti r1)\<lparr>NumericCaps := m\<rparr>\<rparr>)))"

text \<open>
  \<open>for ; table[x] != 0; x++ { if x+1 >= len(table) { return ErrBadString } }\<close>: the index
  of the first NUL from \<open>x\<close> on. The condition \<open>table[x] != 0\<close> is evaluated first, and
  indexes the table.
\<close>

function scanNul :: "byte list \<Rightarrow> nat \<Rightarrow> failure + nat" where
  "scanNul table x =
     (if length table \<le> x then Inl PanicIndex
      else if table ! x = 0 then Inr x
      else if x + 1 \<ge> length table then Inl ErrBadString
      else scanNul table (x + 1))"
  by pat_completeness auto
termination
  by (relation "measure (\<lambda>(table, x). length table - x)") auto

text \<open>The loop of \<open>readStrings\<close> from \<open>j\<close> on.\<close>

function stringsLoop ::
  "byte list \<Rightarrow> byte list \<Rightarrow> nat \<Rightarrow> (int \<rightharpoonup> byte list) \<Rightarrow> failure + (int \<rightharpoonup> byte list)"
where
  "stringsLoop sbuf table j m =
     (if j < length sbuf then
        (case littleEndian j sbuf of
           Inl e \<Rightarrow> Inl e
         | Inr off \<Rightarrow>
             if sint off > -1 then
               (case scanNul table (nat (sint off)) of
                  Inl e \<Rightarrow> Inl e
                | Inr x \<Rightarrow>
                    stringsLoop sbuf table (j + 2)
                      (m(int j div 2 \<mapsto> take (x - nat (sint off)) (drop (nat (sint off)) table))))
             else stringsLoop sbuf table (j + 2) m)
      else Inr m)"
  by pat_completeness auto
termination
  by (relation "measure (\<lambda>(sbuf, table, j, m). length sbuf - j)") auto

definition readStrings :: "reader \<Rightarrow> failure + reader" where
  "readStrings r =
     (case sliceOff r (lenStrings (r_h r)) of
        Inl e \<Rightarrow> Inl e
      | Inr (r1, sbuf) \<Rightarrow>
          (case sliceBuf (r_buf r1) (sint (r_pos r1)) (sint (r_pos r1 + lenTable (r_h r1))) of
             Inl e \<Rightarrow> Inl e
           | Inr table \<Rightarrow>
               (case stringsLoop sbuf table 0 (StringCaps (r_ti r1)) of
                  Inl e \<Rightarrow> Inl e
                | Inr m \<Rightarrow> Inr (r1\<lparr>r_ti := (r_ti r1)\<lparr>StringCaps := m\<rparr>\<rparr>))))"

definition read :: "reader \<Rightarrow> byte list \<Rightarrow> failure + reader" where
  "read r f =
     (case readHeader r f of
        Inl e \<Rightarrow> Inl e
      | Inr r1 \<Rightarrow>
          (case readNames r1 of
             Inl e \<Rightarrow> Inl e
           | Inr r2 \<Rightarrow>
               (case readBools r2 of
                  Inl e \<Rightarrow> Inl e
                | Inr r3 \<Rightarrow>
                    (case readNumbers r3 of
                       Inl e \<Rightarrow> Inl e
                     | Inr r4 \<Rightarrow> readStrings r4))))"

section \<open>Notions the properties are stated with\<close>

text \<open>
  Modelled from the spec: the catalog of standard names is not among the files at hand.
  The examples below run with this excerpt of it, the three names of the spec's own
  example at their terminfo positions (\<open>am\<close> is boolean 1, \<open>cols\<close> number 0, \<open>bold\<close>
  string 27); every other name in the examples is one no catalog has.
\<close>

definition exampleCatalog :: catalog where
  "exampleCatalog =
     \<lparr> boolNameCaps = [''am'' \<mapsto> 1], numNameCaps = [''cols'' \<mapsto> 0],
       stringNameCaps = [''bold'' \<mapsto> 27] \<rparr>"

text \<open>
  \<open>keeps t t'\<close>: every capability that holds a value in \<open>t\<close> holds the same value in \<open>t'\<close>,
  and names and uses are the same.
\<close>

definition keeps :: "Terminfo \<Rightarrow> Terminfo \<Rightarrow> bool" where
  "keeps t t' =
     (Bools t \<subseteq>\<^sub>m Bools t' \<and> Nums t \<subseteq>\<^sub>m Nums t' \<and> Strings t \<subseteq>\<^sub>m Strings t' \<and>
      ExtBoolNames t \<subseteq>\<^sub>m ExtBoolNames t' \<and> ExtNumNames t \<subseteq>\<^sub>m ExtNumNames t' \<and>
      ExtStringNames t \<subseteq>\<^sub>m ExtStringNames t' \<and>
      ExtBools t \<subseteq>\<^sub>m ExtBools t' \<and> ExtNums t \<subseteq>\<^sub>m ExtNums t' \<and>
      ExtStrings t \<subseteq>\<^sub>m ExtStrings t' \<and>
      Uses t' = Uses t \<and> Names t' = Names t)"



text \<open>The lines that \<open>Parse\<close> skips, and the lines that open an entry.\<close>

definition ignoredLine :: "string \<Rightarrow> bool" where
  "ignoredLine line = (take 1 line = ''#'' \<or> TrimSpace line = [])"

definition entryLine :: "string \<Rightarrow> bool" where
  "entryLine line =
     (if ignoredLine line then False
      else (case line of [] \<Rightarrow> False | c0 # _ \<Rightarrow> if isSpace c0 then False else True))"

text \<open>The first line that is not skipped, if there is one, opens an entry.\<close>

definition entryFirst :: "string list \<Rightarrow> bool" where
  "entryFirst ls =
     (case dropWhile ignoredLine ls of [] \<Rightarrow> True | line # _ \<Rightarrow> entryLine line)"

text \<open>
  \<open>field16 b k\<close>: the \<open>k\<close>-th little-endian signed 16-bit value of a byte sequence that
  has \<open>2 * k + 2\<close> bytes or more.
\<close>

definition field16 :: "byte list \<Rightarrow> nat \<Rightarrow> int" where
  "field16 b k = sint (word_of_nat (unat (b ! (2 * k)) + 256 * unat (b ! (2 * k + 1))) :: int16)"

text \<open>
  The spec's words for the length a header declares: the sum of the five fields after
  the magic number, each as the length in bytes of its section, so the two counts of
  16-bit words doubled. \<open>specSmallFile\<close> is the spec's condition for \<open>SmallFile\<close>.
\<close>

definition specDeclaredLength :: "byte list \<Rightarrow> int" where
  "specDeclaredLength f =
     field16 f 1 + field16 f 2 + 2 * field16 f 3 + 2 * field16 f 4 + field16 f 5"

definition specSmallFile :: "byte list \<Rightarrow> bool" where
  "specSmallFile f =
     (if length f < 12 then True else int (length f) < specDeclaredLength f)"

text \<open>
  Three files. \<open>fileEightNumbers\<close> is a header alone, 12 bytes, that declares eight
  numbers and nothing else. \<open>fileOffsetAtEnd\<close> declares one string and an empty string
  table, and its one offset is 0. \<open>fileSentinels\<close> has the name \<open>a\<close>, no bools, the numbers
  5, -1 and -2, the string offsets 0 and -1 and the table \<open>x\<close>, NUL.
\<close>

definition fileEightNumbers :: "byte list" where
  "fileEightNumbers = [0x1A, 0x01, 0, 0, 0, 0, 8, 0, 0, 0, 0, 0]"

definition fileOffsetAtEnd :: "byte list" where
  "fileOffsetAtEnd = [0x1A, 0x01, 0, 0, 0, 0, 0, 0, 1, 0, 0, 0, 0, 0]"

definition fileSentinels :: "byte list" where
  "fileSentinels =
     [0x1A, 0x01, 1, 0, 0, 0, 3, 0, 2, 0, 2, 0,
      0x61,
      0,
      5, 0, 0xFF, 0xFF, 0xFE, 0xFF,
      0, 0, 0xFF, 0xFF,
      0x78, 0]"

text \<open>
  A batch of two models: \<open>A\<close> with number 0 set to 7 and a use of \<open>B\<close>; \<open>B\<close> with number 0
  set to 5 and number 1 set to 24.
\<close>

definition exampleBatch :: "Terminfo list" where
  "exampleBatch =
     [(newTerminfo [''A''])\<lparr>Nums := [0 \<mapsto> 7], Uses := [''B'']\<rparr>,
      (newTerminfo [''B''])\<lparr>Nums := [0 \<mapsto> 5, 1 \<mapsto> 24]\<rparr>]"

section \<open>Properties of the use resolver\<close>

lemma collect_le: "tm \<subseteq>\<^sub>m collect um tm"
  by (auto simp: map_le_def collect_def)

lemma keeps_refl: "keeps t t"
  by (simp add: keeps_def)

lemma keeps_trans: "keeps a b \<Longrightarrow> keeps b c \<Longrightarrow> keeps a c"
  unfolding keeps_def by (metis map_le_trans)

lemma keeps_collectCaps: "keeps t (collectCaps u t)"
  by (simp add: keeps_def collectCaps_def collect_le)

text \<open>
  A call of \<open>resolveUses\<close> for the model at \<open>i\<close> writes to that model only, and only adds
  to it.
\<close>

lemma resolve_frame:
  "resolveUses fuel ts i use = Some ts' \<Longrightarrow>
     length ts' = length ts \<and> (\<forall>j. j \<noteq> i \<longrightarrow> ts' ! j = ts ! j) \<and>
     (i < length ts \<longrightarrow> keeps (ts ! i) (ts' ! i))"
  "resolveUsesList fuel ts i us = Some ts' \<Longrightarrow>
     length ts' = length ts \<and> (\<forall>j. j \<noteq> i \<longrightarrow> ts' ! j = ts ! j) \<and>
     (i < length ts \<longrightarrow> keeps (ts ! i) (ts' ! i))"
proof (induction fuel ts i use and fuel ts i us arbitrary: ts' and ts'
    rule: resolveUses_resolveUsesList.induct)
  case (1 tis i use)
  then show ?case by simp
next
  case (2 fuel tis i use)
  show ?case
  proof (cases "findTerminfo tis use")
    case None
    with 2(2) show ?thesis by (simp add: keeps_refl)
  next
    case (Some j)
    with 2(2) obtain tm where
      tm: "resolveUsesList fuel tis i (Uses (tis ! j)) = Some tm"
      and eq: "ts' = tm[i := collectCaps (tm ! j) (tm ! i)]"
      by (auto split: option.splits)
    from 2(1)[OF Some tm] have
      len: "length tm = length tis" and oth: "\<forall>j. j \<noteq> i \<longrightarrow> tm ! j = tis ! j"
      and kp: "i < length tis \<longrightarrow> keeps (tis ! i) (tm ! i)" by auto
    show ?thesis
      using len oth kp eq keeps_trans[OF _ keeps_collectCaps] by auto
  qed
next
  case (3 fuel tis i)
  then show ?case by (simp add: keeps_refl)
next
  case (4 fuel tis i uu us)
  from 4(3) obtain tm where
    tm: "resolveUses fuel tis i uu = Some tm"
    and rest: "resolveUsesList fuel tm i us = Some ts'"
    by (auto split: option.splits)
  from 4(1)[OF tm] have
    len: "length tm = length tis" and oth: "\<forall>j. j \<noteq> i \<longrightarrow> tm ! j = tis ! j"
    and kp: "i < length tis \<longrightarrow> keeps (tis ! i) (tm ! i)" by auto
  from 4(2)[OF tm rest] have
    len': "length ts' = length tm" and oth': "\<forall>j. j \<noteq> i \<longrightarrow> ts' ! j = tm ! j"
    and kp': "i < length tm \<longrightarrow> keeps (tm ! i) (ts' ! i)" by auto
  show ?case using len oth kp len' oth' kp' keeps_trans by auto
qed

text \<open>
  The definitions that evaluate the parser and the resolver on a given input. The loop
  of \<open>TrimSpace\<close> is unfolded on request only.
\<close>

declare trimWith.simps [simp del]

lemmas parse_eval = trimWith.simps
  processLine_def TrimSpace_def runeLen_def spaceSeqs_def isSpace_def initState_def
  step_def stepGROUND_def stepINT_def stepNONE_def stepCTRL_def stepESC_def
  addCap_def addCapBool_def addCapNum_def addCapStr_def Let_def newTerminfo_def
  exampleCatalog_def entries_def parseSource_def ParseUint_def digitVal_def lower_def
  isOctal_def octalPair_def octalByte_def

lemmas resolve_eval =
  Parse_def resolveBatch_def collectCaps_def collect_def

text \<open>
  C7. A call of \<open>resolveUses\<close> for the model at \<open>i\<close> leaves every value that the model
  holds before the call as it is, for each of the nine capability maps (the standard
  bools, numbers and strings, the extended names and the extended values): a referenced
  capability is copied only into a position the model does not occupy yet, whether the
  model got its value from the parser or from an earlier use.
\<close>

theorem first_definition_wins:
  assumes "resolveUses fuel ts i use = Some ts'" and "i < length ts"
  shows "Bools (ts ! i) \<subseteq>\<^sub>m Bools (ts' ! i) \<and> Nums (ts ! i) \<subseteq>\<^sub>m Nums (ts' ! i) \<and>
         Strings (ts ! i) \<subseteq>\<^sub>m Strings (ts' ! i) \<and>
         ExtBoolNames (ts ! i) \<subseteq>\<^sub>m ExtBoolNames (ts' ! i) \<and>
         ExtNumNames (ts ! i) \<subseteq>\<^sub>m ExtNumNames (ts' ! i) \<and>
         ExtStringNames (ts ! i) \<subseteq>\<^sub>m ExtStringNames (ts' ! i) \<and>
         ExtBools (ts ! i) \<subseteq>\<^sub>m ExtBools (ts' ! i) \<and>
         ExtNums (ts ! i) \<subseteq>\<^sub>m ExtNums (ts' ! i) \<and>
         ExtStrings (ts ! i) \<subseteq>\<^sub>m ExtStrings (ts' ! i)"
  using resolve_frame(1)[OF assms(1)] assms(2) by (simp add: keeps_def)

text \<open>
  On the example batch: \<open>A\<close> keeps its own 7 at number 0, where \<open>B\<close> has 5, and takes
  number 1 from \<open>B\<close>.
\<close>

theorem first_definition_wins_witness:
  "Nums (exampleBatch ! 0) 0 = Some 7 \<and>
   (\<exists>ts'. resolveUses (Suc (Suc 0)) exampleBatch 0 ''B'' = Some ts' \<and>
          Nums (ts' ! 0) 0 = Some 7 \<and> Nums (ts' ! 0) 1 = Some 24)"
proof -
  obtain ts' where r: "resolveUses (Suc (Suc 0)) exampleBatch 0 ''B'' = Some ts'"
    by (simp add: exampleBatch_def newTerminfo_def resolve_eval)
  have l: "0 < length exampleBatch" by (simp add: exampleBatch_def)
  have v: "Nums (exampleBatch ! 0) 0 = Some 7" by (simp add: exampleBatch_def newTerminfo_def)
  from first_definition_wins[OF r l] have "Nums (exampleBatch ! 0) \<subseteq>\<^sub>m Nums (ts' ! 0)" by simp
  with v have "Nums (ts' ! 0) 0 = Some 7" by (metis domI map_le_def)
  moreover from r have "Nums (ts' ! 0) 1 = Some 24"
    by (auto simp add: exampleBatch_def newTerminfo_def resolve_eval)
  ultimately show ?thesis using r v by simp
qed

lemma resolveAll_uses:
  "resolveAll fuel ts is = Some ts' \<Longrightarrow>
     map Uses ts' = map Uses ts \<and> map Names ts' = map Names ts"
proof (induction "is" arbitrary: ts)
  case Nil
  then show ?case by simp
next
  case (Cons i "is")
  from Cons.prems obtain tm where
    tm: "resolveUsesList fuel ts i (Uses (ts ! i)) = Some tm"
    and rest: "resolveAll fuel tm is = Some ts'"
    by (auto split: option.splits)
  from resolve_frame(2)[OF tm] have
    len: "length tm = length ts" and oth: "\<forall>j. j \<noteq> i \<longrightarrow> tm ! j = ts ! j"
    and kp: "i < length ts \<longrightarrow> keeps (ts ! i) (tm ! i)" by auto
  have "\<forall>j < length ts. Uses (tm ! j) = Uses (ts ! j) \<and> Names (tm ! j) = Names (ts ! j)"
    using oth kp by (metis keeps_def)
  with len have "map Uses tm = map Uses ts \<and> map Names tm = map Names ts"
    by (simp add: list_eq_iff_nth_eq)
  with Cons.IH[OF rest] show ?case by simp
qed

text \<open>
  C6, as the code has it. The claim is that every model's \<open>Uses\<close> is empty after
  resolution. No statement of \<open>Parse\<close> or \<open>resolveUses\<close> assigns to \<open>Uses\<close>: after the
  resolver has run on a batch, every model has the \<open>Uses\<close> it had before.
\<close>

theorem uses_kept_by_resolution:
  assumes "resolveBatch fuel ts = Some ts'"
  shows "map Uses ts' = map Uses ts"
  using assms resolveAll_uses by (simp add: resolveBatch_def)

theorem uses_kept_by_resolution_witness:
  "\<exists>ts'. resolveBatch (Suc (Suc 0)) exampleBatch = Some ts' \<and> map Uses ts' = [[''B''], []]"
proof -
  obtain ts' where r: "resolveBatch (Suc (Suc 0)) exampleBatch = Some ts'"
    by (simp add: exampleBatch_def newTerminfo_def resolve_eval)
  from uses_kept_by_resolution[OF r] have "map Uses ts' = map Uses exampleBatch" .
  then show ?thesis using r by (simp add: exampleBatch_def newTerminfo_def)
qed

text \<open>
  C6 as stated fails: \<open>Parse\<close> on an entry \<open>A\<close> that uses \<open>B\<close>, and the entry \<open>B\<close>, returns
  \<open>A\<close> with \<open>Uses = ["B"]\<close>.
\<close>

theorem uses_not_cleared_counterexample:
  "map_option (map_sum id (map Uses))
     (Parse (Suc (Suc 0)) exampleCatalog ''A,\<newline> use=B,\<newline>B,\<newline> cols#5,\<newline>'')
   = Some (Inr [[''B''], []])"
  by (simp add: parse_eval resolve_eval)

text \<open>
  C1, on the code. The claim is that for \<open>A\<close> uses \<open>B\<close>, \<open>B\<close> uses \<open>C\<close>, with \<open>B\<close> and \<open>C\<close> both
  giving a value that \<open>A\<close> does not give, \<open>A\<close> ends up with the value of \<open>B\<close>. In
  \<open>resolveUses\<close> the recursive call for the uses of \<open>B\<close> has \<open>ti\<close>, that is \<open>A\<close>, as its
  target, and runs before the capabilities of \<open>B\<close> are collected: \<open>C\<close> is merged into
  \<open>A\<close> first and \<open>A\<close> ends up with the value of \<open>C\<close>. Here \<open>cols\<close> is 5 in \<open>B\<close> and 9 in
  \<open>C\<close>, and \<open>Parse\<close> returns \<open>A\<close> with 9, whether the entries come in the order \<open>A\<close>,
  \<open>B\<close>, \<open>C\<close> or in the order \<open>C\<close>, \<open>B\<close>, \<open>A\<close>.
\<close>

theorem nested_use_overrides_referenced:
  "map_option (map_sum id (map (\<lambda>t. (Names t, Nums t 0))))
     (Parse (Suc (Suc 0)) exampleCatalog
        ''A,\<newline> use=B,\<newline>B,\<newline> cols#5, use=C,\<newline>C,\<newline> cols#9,\<newline>'')
   = Some (Inr [([''A''], Some 9), ([''B''], Some 5), ([''C''], Some 9)]) \<and>
   map_option (map_sum id (map (\<lambda>t. (Names t, Nums t 0))))
     (Parse (Suc (Suc 0)) exampleCatalog
        ''C,\<newline> cols#9,\<newline>B,\<newline> cols#5, use=C,\<newline>A,\<newline> use=B,\<newline>'')
   = Some (Inr [([''C''], Some 9), ([''B''], Some 5), ([''A''], Some 9)])"
  by (simp add: parse_eval resolve_eval)

section \<open>Properties of the binary reader\<close>

text \<open>The loops are unfolded on request only.\<close>

declare numbersLoop.simps [simp del] stringsLoop.simps [simp del] scanNul.simps [simp del]

lemma upt_0_6: "[0 ..< 6] = [0, 1, 2, 3, 4, 5 :: nat]"
  by (simp add: upt_rec)

lemmas read_eval = upt_0_6
  read_def readHeader_def readNames_def readBools_def readNumbers_def readStrings_def
  sliceOff_def slice_def sliceBuf_def littleEndian_def newReader_def newReaderTerminfo_def
  lenFile_def lenNames_def lenBools_def lenNumeric_def lenStrings_def lenTable_def hlen_def
  badMagic_def skipNull_def truncRem_def Let_def
  numbersLoop.simps stringsLoop.simps scanNul.simps

text \<open>
  C5, on the code. The claim has \<open>SmallFile\<close> exactly when the buffer is shorter than the
  12 bytes of the header or shorter than the declared length, the two word counts
  doubled. \<open>lenFile\<close> adds the five fields as they are, and the first check of
  \<open>readHeader\<close> compares with \<open>len(r.h)\<close>, which is 6. A header alone that declares eight
  numbers (16 bytes by the spec's count, more than the 12 there are) is accepted, and
  a file of six bytes, shorter than the header, runs into Go's index panic.
\<close>

theorem small_file_check_misses:
  "specSmallFile fileEightNumbers \<and>
   readHeader newReader fileEightNumbers =
     Inr (newReader\<lparr>r_buf := fileEightNumbers, r_h := [0x11A, 0, 0, 8, 0, 0]\<rparr>) \<and>
   specSmallFile [0x1A, 0x01, 0, 0, 0, 0] \<and>
   readHeader newReader [0x1A, 0x01, 0, 0, 0, 0] = Inl PanicIndex"
  by (simp add: specSmallFile_def specDeclaredLength_def field16_def fileEightNumbers_def read_eval)

text \<open>
  What \<open>scanNul\<close> returns: the index panic exactly for a start at or beyond the end of
  the table, and \<open>ErrBadString\<close>, for a start inside the table, exactly when no NUL
  follows.
\<close>

lemma scanNul_panics: "(scanNul table x = Inl PanicIndex) = (length table \<le> x)"
proof (induction table x rule: scanNul.induct)
  case (1 table x)
  show ?case
  proof (cases "length table \<le> x")
    case True
    then show ?thesis by (simp add: scanNul.simps)
  next
    case False
    show ?thesis
    proof (cases "table ! x = 0 \<or> length table \<le> x + 1")
      case True
      with False show ?thesis by (auto simp: scanNul.simps[of table x])
    next
      case f2: False
      with False 1 have "(scanNul table (x + 1) = Inl PanicIndex) = (length table \<le> x + 1)" by simp
      with False f2 show ?thesis by (simp add: scanNul.simps[of table x])
    qed
  qed
qed

lemma scanNul_bad_string:
  "x < length table \<Longrightarrow>
     (scanNul table x = Inl ErrBadString) = (\<forall>i. x \<le> i \<and> i < length table \<longrightarrow> table ! i \<noteq> 0)"
proof (induction table x rule: scanNul.induct)
  case (1 table x)
  show ?case
  proof (cases "table ! x = 0")
    case True
    with 1(2) show ?thesis by (auto simp: scanNul.simps[of table x])
  next
    case False
    show ?thesis
    proof (cases "length table \<le> x + 1")
      case True
      then have e: "\<forall>i. x \<le> i \<and> i < length table \<longrightarrow> i = x" by auto
      have "\<forall>i. x \<le> i \<and> i < length table \<longrightarrow> table ! i \<noteq> 0"
        using e False by metis
      with True False 1(2) show ?thesis by (simp add: scanNul.simps[of table x])
    next
      case f2: False
      with False 1 have ih: "(scanNul table (x + 1) = Inl ErrBadString) =
          (\<forall>i. x + 1 \<le> i \<and> i < length table \<longrightarrow> table ! i \<noteq> 0)" by simp
      have "(\<forall>i. x \<le> i \<and> i < length table \<longrightarrow> table ! i \<noteq> 0) =
            (\<forall>i. x + 1 \<le> i \<and> i < length table \<longrightarrow> table ! i \<noteq> 0)"
        using False by (metis Suc_eq_plus1 Suc_leD Suc_leI le_neq_implies_less)
      with ih f2 False 1(2) show ?thesis by (simp add: scanNul.simps[of table x])
    qed
  qed
qed

text \<open>
  C9, on the code. The claim has \<open>BadString\<close> for an offset at or beyond the end of the
  string table as well. \<open>readStrings\<close> indexes \<open>table[x]\<close> before it compares \<open>x + 1\<close> with
  the length: with an empty table and the offset 0 the read is Go's index panic.
\<close>

theorem offset_at_table_end_panics:
  "read newReader fileOffsetAtEnd = Inl PanicIndex"
  by (simp add: fileOffsetAtEnd_def read_eval)

lemma littleEndian_field16:
  "littleEndian (2 * k) b = Inr n \<Longrightarrow> sint n = field16 b k \<and> 2 * k + 1 < length b"
  by (auto simp: littleEndian_def field16_def split: if_splits)

lemma numbersLoop_slots:
  "numbersLoop nbuf (2 * q) m = Inr m' \<Longrightarrow>
     (\<forall>k. q \<le> k \<and> 2 * k + 1 < length nbuf \<longrightarrow>
          m' (int k) = (if -1 < field16 nbuf k then Some (field16 nbuf k) else m (int k))) \<and>
     (\<forall>key. (\<forall>k. q \<le> k \<and> 2 * k + 1 < length nbuf \<longrightarrow> key \<noteq> int k) \<longrightarrow> m' key = m key)"
proof (induction "length nbuf - 2 * q" arbitrary: q m rule: less_induct)
  case less
  show ?case
  proof (cases "2 * q < length nbuf")
    case False
    with less.prems have "m' = m" by (simp add: numbersLoop.simps[of nbuf "2 * q" m])
    with False show ?thesis by auto
  next
    case True
    with less.prems obtain n where
      n: "littleEndian (2 * q) nbuf = Inr n"
      and rest: "numbersLoop nbuf (2 * q + 2) (if -1 < sint n then m(int (2 * q) div 2 \<mapsto> sint n) else m) = Inr m'"
      by (simp add: numbersLoop.simps[of nbuf "2 * q" m] split: sum.splits)
    let ?m1 = "if -1 < sint n then m(int q \<mapsto> sint n) else m"
    from littleEndian_field16[OF n] have f: "sint n = field16 nbuf q" and inb: "2 * q + 1 < length nbuf"
      by auto
    from rest have rest': "numbersLoop nbuf (2 * Suc q) ?m1 = Inr m'" by (simp cong: if_cong)
    have "length nbuf - 2 * Suc q < length nbuf - 2 * q" using True by simp
    from less.hyps[OF this rest'] have
      A: "\<forall>k. Suc q \<le> k \<and> 2 * k + 1 < length nbuf \<longrightarrow>
            m' (int k) = (if -1 < field16 nbuf k then Some (field16 nbuf k) else ?m1 (int k))"
      and B: "\<forall>key. (\<forall>k. Suc q \<le> k \<and> 2 * k + 1 < length nbuf \<longrightarrow> key \<noteq> int k) \<longrightarrow> m' key = ?m1 key"
      by auto
    have q: "m' (int q) = ?m1 (int q)" using B by auto
    show ?thesis
    proof (intro conjI allI impI)
      fix k assume k: "q \<le> k \<and> 2 * k + 1 < length nbuf"
      show "m' (int k) = (if -1 < field16 nbuf k then Some (field16 nbuf k) else m (int k))"
      proof (cases "k = q")
        case True
        then show ?thesis using q f by simp
      next
        case False
        with k have "Suc q \<le> k" by simp
        with A k have "m' (int k) = (if -1 < field16 nbuf k then Some (field16 nbuf k) else ?m1 (int k))"
          by blast
        moreover have "?m1 (int k) = m (int k)" using False by simp
        ultimately show ?thesis by simp
      qed
    next
      fix key assume key: "\<forall>k. q \<le> k \<and> 2 * k + 1 < length nbuf \<longrightarrow> key \<noteq> int k"
      then have "key \<noteq> int q" using inb by auto
      moreover from key have "\<forall>k. Suc q \<le> k \<and> 2 * k + 1 < length nbuf \<longrightarrow> key \<noteq> int k" by auto
      with B have "m' key = ?m1 key" by blast
      ultimately show "m' key = m key" by simp
    qed
  qed
qed

lemma stringsLoop_slots:
  "stringsLoop sbuf table (2 * q) m = Inr m' \<Longrightarrow>
     (\<forall>k. q \<le> k \<and> 2 * k + 1 < length sbuf \<and> field16 sbuf k \<le> -1 \<longrightarrow> m' (int k) = m (int k)) \<and>
     (\<forall>key. (\<forall>k. q \<le> k \<and> 2 * k + 1 < length sbuf \<longrightarrow> key \<noteq> int k) \<longrightarrow> m' key = m key)"
proof (induction "length sbuf - 2 * q" arbitrary: q m rule: less_induct)
  case less
  show ?case
  proof (cases "2 * q < length sbuf")
    case False
    with less.prems have "m' = m" by (simp add: stringsLoop.simps[of sbuf table "2 * q" m])
    with False show ?thesis by auto
  next
    case True
    with less.prems obtain off m1 where
      n: "littleEndian (2 * q) sbuf = Inr off"
      and rest: "stringsLoop sbuf table (2 * q + 2) m1 = Inr m'"
      and m1: "m1 = m \<or> (-1 < sint off \<and> (\<exists>v. m1 = m(int q \<mapsto> v)))"
      by (auto simp add: stringsLoop.simps[of sbuf table "2 * q" m] split: sum.splits if_splits)
    from littleEndian_field16[OF n] have f: "sint off = field16 sbuf q" and inb: "2 * q + 1 < length sbuf"
      by auto
    from rest have rest': "stringsLoop sbuf table (2 * Suc q) m1 = Inr m'" by simp
    have "length sbuf - 2 * Suc q < length sbuf - 2 * q" using True by simp
    from less.hyps[OF this rest'] have
      A: "\<forall>k. Suc q \<le> k \<and> 2 * k + 1 < length sbuf \<and> field16 sbuf k \<le> -1 \<longrightarrow> m' (int k) = m1 (int k)"
      and B: "\<forall>key. (\<forall>k. Suc q \<le> k \<and> 2 * k + 1 < length sbuf \<longrightarrow> key \<noteq> int k) \<longrightarrow> m' key = m1 key"
      by auto
    have q: "m' (int q) = m1 (int q)" using B by auto
    show ?thesis
    proof (intro conjI allI impI)
      fix k assume k: "q \<le> k \<and> 2 * k + 1 < length sbuf \<and> field16 sbuf k \<le> -1"
      show "m' (int k) = m (int k)"
      proof (cases "k = q")
        case True
        then show ?thesis using q f k m1 by auto
      next
        case False
        with k have "Suc q \<le> k" by simp
        with A k have "m' (int k) = m1 (int k)" by blast
        moreover have "m1 (int k) = m (int k)" using False m1 by auto
        ultimately show ?thesis by simp
      qed
    next
      fix key assume key: "\<forall>k. q \<le> k \<and> 2 * k + 1 < length sbuf \<longrightarrow> key \<noteq> int k"
      then have "key \<noteq> int q" using inb by auto
      moreover from key have "\<forall>k. Suc q \<le> k \<and> 2 * k + 1 < length sbuf \<longrightarrow> key \<noteq> int k" by auto
      with B have "m' key = m1 key" by blast
      ultimately show "m' key = m key" using m1 by auto
    qed
  qed
qed

lemma sliceOff_frame:
  "sliceOff r off = Inr (r', b) \<Longrightarrow> r_ti r' = r_ti r \<and> r_h r' = r_h r \<and> r_buf r' = r_buf r"
  unfolding sliceOff_def Let_def
  by (cases "slice (r\<lparr>r_ppos := r_pos r, r_pos := r_pos r + off\<rparr>)") auto

lemma read_stages:
  assumes "read r0 f = Inr r"
  obtains r1 r2 r3 r4 where
    "readHeader r0 f = Inr r1" "readNames r1 = Inr r2" "readBools r2 = Inr r3"
    "readNumbers r3 = Inr r4" "readStrings r4 = Inr r"
  using assms by (auto simp: read_def split: sum.splits)

text \<open>
  C8. When \<open>read\<close> succeeds, with \<open>nbuf\<close> the section of numbers and \<open>sbuf\<close> the section of
  string offsets that it sliced: slot \<open>k\<close> of the numbers holds its 16-bit value when that
  is above -1 and has no entry otherwise; no number stored is negative; and a string
  slot whose offset is -1 or below has no entry.
\<close>

theorem sentinel_is_absent:
  assumes "read r0 f = Inr r"
  shows "\<exists>r1 r2 r3 r3' nbuf r4 r4' sbuf.
           readHeader r0 f = Inr r1 \<and> readNames r1 = Inr r2 \<and> readBools r2 = Inr r3 \<and>
           sliceOff r3 (lenNumeric (r_h r3)) = Inr (r3', nbuf) \<and> readNumbers r3 = Inr r4 \<and>
           sliceOff r4 (lenStrings (r_h r4)) = Inr (r4', sbuf) \<and> readStrings r4 = Inr r \<and>
           (\<forall>k. 2 * k + 1 < length nbuf \<longrightarrow>
                NumericCaps (r_ti r) (int k) =
                  (if -1 < field16 nbuf k then Some (field16 nbuf k) else None)) \<and>
           (\<forall>key v. NumericCaps (r_ti r) key = Some v \<longrightarrow> 0 \<le> v) \<and>
           (\<forall>k. 2 * k + 1 < length sbuf \<and> field16 sbuf k \<le> -1 \<longrightarrow>
                StringCaps (r_ti r) (int k) = None)"
proof -
  from assms obtain r1 r2 r3 r4 where
    s1: "readHeader r0 f = Inr r1" and s2: "readNames r1 = Inr r2" and s3: "readBools r2 = Inr r3"
    and s4: "readNumbers r3 = Inr r4" and s5: "readStrings r4 = Inr r"
    by (rule read_stages)
  from s2 have e2: "NumericCaps (r_ti r2) = Map.empty \<and> StringCaps (r_ti r2) = Map.empty"
    by (auto simp: readNames_def Let_def newReaderTerminfo_def split: sum.splits)
  from s3 have e3: "NumericCaps (r_ti r3) = NumericCaps (r_ti r2) \<and> StringCaps (r_ti r3) = StringCaps (r_ti r2)"
    by (auto simp: readBools_def split: sum.splits dest: sliceOff_frame)
  from s4 obtain r3' nbuf m where
    n1: "sliceOff r3 (lenNumeric (r_h r3)) = Inr (r3', nbuf)"
    and n2: "numbersLoop nbuf 0 (NumericCaps (r_ti r3')) = Inr m"
    and n3: "r4 = r3'\<lparr>r_ti := (r_ti r3')\<lparr>NumericCaps := m\<rparr>\<rparr>"
    by (auto simp: readNumbers_def split: sum.splits)
  from n1 have n4: "r_ti r3' = r_ti r3" by (auto dest: sliceOff_frame)
  from s5 obtain r4' sbuf table ms where
    t1: "sliceOff r4 (lenStrings (r_h r4)) = Inr (r4', sbuf)"
    and t2: "stringsLoop sbuf table 0 (StringCaps (r_ti r4')) = Inr ms"
    and t3: "r = r4'\<lparr>r_ti := (r_ti r4')\<lparr>StringCaps := ms\<rparr>\<rparr>"
    by (auto simp: readStrings_def split: sum.splits)
  from t1 have t4: "r_ti r4' = r_ti r4" by (auto dest: sliceOff_frame)
  have num: "NumericCaps (r_ti r) = m" using t3 t4 n3 by simp
  have str0: "StringCaps (r_ti r4') = Map.empty" using t4 n3 n4 e3 e2 by simp
  have num0: "NumericCaps (r_ti r3') = Map.empty" using n4 e3 e2 by simp
  from numbersLoop_slots[of nbuf 0 "NumericCaps (r_ti r3')" m] n2 num0 have
    N1: "\<forall>k. 2 * k + 1 < length nbuf \<longrightarrow>
           m (int k) = (if -1 < field16 nbuf k then Some (field16 nbuf k) else None)"
    and N2: "\<forall>key. (\<forall>k. 2 * k + 1 < length nbuf \<longrightarrow> key \<noteq> int k) \<longrightarrow> m key = None"
    by auto
  have N3: "\<forall>key v. m key = Some v \<longrightarrow> 0 \<le> v"
  proof (intro allI impI)
    fix key v assume kv: "m key = Some v"
    with N2 obtain k where k: "2 * k + 1 < length nbuf" "key = int k" by force
    with N1 kv have "(if -1 < field16 nbuf k then Some (field16 nbuf k) else None) = Some v" by simp
    then show "0 \<le> v" by (auto split: if_splits)
  qed
  from stringsLoop_slots[of sbuf table 0 "StringCaps (r_ti r4')" ms] t2 str0 have
    S1: "\<forall>k. 2 * k + 1 < length sbuf \<and> field16 sbuf k \<le> -1 \<longrightarrow> ms (int k) = None"
    by auto
  have str: "StringCaps (r_ti r) = ms" using t3 by simp
  show ?thesis
    using s1 s2 s3 n1 s4 t1 s5 N1 N3 S1 num str by blast
qed

text \<open>
  On \<open>fileSentinels\<close>: the numbers 5, -1, -2 give 5 at slot 0 and nothing at 1 and 2; the
  offsets 0, -1 give the string \<open>x\<close> at slot 0 and nothing at 1.
\<close>

theorem sentinel_is_absent_witness:
  "\<exists>r. read newReader fileSentinels = Inr r \<and>
       map (NumericCaps (r_ti r)) [0, 1, 2] = [Some 5, None, None] \<and>
       map (StringCaps (r_ti r)) [0, 1] = [Some [0x78], None] \<and>
       (\<forall>key v. NumericCaps (r_ti r) key = Some v \<longrightarrow> 0 \<le> v)"
proof -
  obtain r where r: "read newReader fileSentinels = Inr r"
    and v: "map (NumericCaps (r_ti r)) [0, 1, 2] = [Some 5, None, None]"
           "map (StringCaps (r_ti r)) [0, 1] = [Some [0x78], None]"
    by (simp add: fileSentinels_def read_eval)
  from sentinel_is_absent[OF r] have h: "\<forall>key v. NumericCaps (r_ti r) key = Some v \<longrightarrow> 0 \<le> v"
    by blast
  show ?thesis by (rule exI[of _ r]) (use r v h in simp)
qed

section \<open>Properties of the source parser\<close>

lemmas addCap_defs = addCap_def addCapBool_def addCapNum_def addCapStr_def Let_def
lemmas step_defs = step_def stepGROUND_def stepINT_def stepNONE_def stepCTRL_def stepESC_def


lemma step_fail:
  "step cat s st c rest = Inl e \<Longrightarrow>
     (ti st = None \<and> e = PanicNilDeref \<and> c = CHR '','') \<or>
     (esc st = ESC \<and> c = CHR ''l'' \<and> e = PanicWeirdFormat (''WTF: weird format: '' @ s))"
  apply (cases "esc st"; cases "ti st")
  apply (auto simp: step_defs addCap_defs split: if_splits option.splits sum.splits)
  done

lemma step_ti:
  "step cat s st c rest = Inr (st', k) \<Longrightarrow> ti st \<noteq> None \<Longrightarrow> ti st' \<noteq> None \<and> tis st' = tis st"
  apply (cases "esc st")
  apply (auto simp: step_defs addCap_defs split: if_splits option.splits sum.splits)
  done

lemma step_noESC:
  "c \<noteq> CHR 0x5C \<Longrightarrow> esc st \<noteq> ESC \<Longrightarrow> step cat s st c rest = Inr (st', k) \<Longrightarrow> esc st' \<noteq> ESC"
  apply (cases "esc st")
  apply (auto simp: step_defs addCap_def split: if_splits sum.splits)
  done

lemma runeLen_nil: "runeLen seqs [] = 0"
  by (induction seqs) (auto simp: runeLen_def)

lemma trimWith_nil: "trimWith seqs [] = []"
  by (simp add: trimWith.simps runeLen_nil)

lemma TrimSpace_nil: "TrimSpace [] = []"
  by (simp add: TrimSpace_def trimWith_nil)

lemma set_trimWith: "set (trimWith seqs s) \<subseteq> set s"
proof (induction seqs s rule: trimWith.induct)
  case (1 seqs s)
  show ?case
  proof (cases "runeLen seqs s = 0")
    case True
    then show ?thesis by (simp add: trimWith.simps)
  next
    case False
    then have "trimWith seqs s = trimWith seqs (drop (runeLen seqs s) s)"
      by (simp add: trimWith.simps)
    with 1[OF False] show ?thesis using set_drop_subset by fastforce
  qed
qed

lemma set_TrimSpace: "set (TrimSpace s) \<subseteq> set s"
proof -
  have "set (TrimSpace s) \<subseteq> set (rev (trimWith spaceSeqs s))"
    unfolding TrimSpace_def using set_trimWith[of "map rev spaceSeqs" "rev (trimWith spaceSeqs s)"]
    by simp
  also have "\<dots> \<subseteq> set s" using set_trimWith[of spaceSeqs s] by simp
  finally show ?thesis .
qed

lemma splitOn_nonempty: "splitOn sep s \<noteq> []"
  by (induction s) (auto split: list.splits)

lemma set_splitOn: "line \<in> set (splitOn sep s) \<Longrightarrow> set line \<subseteq> set s"
proof (induction s arbitrary: line)
  case Nil
  then show ?case by simp
next
  case (Cons c cs)
  show ?case
  proof (cases "c = sep")
    case True
    with Cons show ?thesis by auto
  next
    case False
    obtain p ps where sp: "splitOn sep cs = p # ps"
      using splitOn_nonempty[of sep cs] by (cases "splitOn sep cs") auto
    with False Cons.prems have "line = c # p \<or> line \<in> set ps" by auto
    then show ?thesis
    proof
      assume "line = c # p"
      moreover have "set p \<subseteq> set cs" using Cons.IH[of p] sp by simp
      ultimately show ?thesis by auto
    next
      assume "line \<in> set ps"
      then have "set line \<subseteq> set cs" using Cons.IH[of line] sp by simp
      then show ?thesis by auto
    qed
  qed
qed


lemma scan_some:
  "ti st \<noteq> None \<Longrightarrow>
     (\<forall>e. scan cat s st cs = Inl e \<longrightarrow>
           e = PanicWeirdFormat (''WTF: weird format: '' @ s) \<and> CHR ''l'' \<in> set cs) \<and>
     (\<forall>st'. scan cat s st cs = Inr st' \<longrightarrow> ti st' \<noteq> None)"
proof (induction cat s st cs rule: scan.induct)
  case (1 cat s st)
  then show ?case by simp
next
  case (2 cat s st c rest)
  show ?case
  proof (cases "step cat s st c rest")
    case (Inl e)
    with step_fail[OF Inl] 2(2) show ?thesis by auto
  next
    case (Inr p)
    obtain st1 k where p: "p = (st1, k)" by (cases p)
    from step_ti[OF Inr[unfolded p] 2(2)] have t1: "ti st1 \<noteq> None" by simp
    from 2(1)[OF Inr[unfolded p] refl t1] Inr p set_drop_subset[of k rest] show ?thesis
      by auto
  qed
qed

lemma scan_noESC:
  "CHR 0x5C \<notin> set cs \<Longrightarrow> esc st \<noteq> ESC \<Longrightarrow> ti st \<noteq> None \<Longrightarrow>
     \<exists>st'. scan cat s st cs = Inr st' \<and> esc st' \<noteq> ESC \<and> ti st' \<noteq> None"
proof (induction cat s st cs rule: scan.induct)
  case (1 cat s st)
  then show ?case by simp
next
  case (2 cat s st c rest)
  from 2(2) have c: "c \<noteq> CHR 0x5C" and r: "CHR 0x5C \<notin> set rest" by auto
  show ?case
  proof (cases "step cat s st c rest")
    case (Inl e)
    with step_fail[OF Inl] 2(3,4) show ?thesis by auto
  next
    case (Inr p)
    obtain st1 k where p: "p = (st1, k)" by (cases p)
    from step_ti[OF Inr[unfolded p] 2(4)] have t1: "ti st1 \<noteq> None" by simp
    from step_noESC[OF c 2(3) Inr[unfolded p]] have e1: "esc st1 \<noteq> ESC" .
    from r have r': "CHR 0x5C \<notin> set (drop k rest)" using set_drop_subset[of k rest] by auto
    from 2(1)[OF Inr[unfolded p] refl r' e1 t1] Inr p show ?thesis by simp
  qed
qed

lemma processLine_ignored: "ignoredLine line \<Longrightarrow> processLine cat st line = Inr st"
  by (auto simp: processLine_def ignoredLine_def)

lemma processLine_entry:
  "entryLine line \<Longrightarrow>
     \<exists>names. processLine cat st line = Inr (st\<lparr>tis := entries st, ti := Some (newTerminfo names)\<rparr>)"
proof -
  assume e: "entryLine line"
  obtain p ps where sp: "splitOn (CHR '','') line = p # ps"
    using splitOn_nonempty[of "CHR '',''" line] by (cases "splitOn (CHR '','') line") auto
  from e sp show ?thesis
    by (auto simp: entryLine_def ignoredLine_def processLine_def entries_def
             split: if_splits list.splits)
qed

lemma processLine_cont:
  "\<not> ignoredLine line \<Longrightarrow> \<not> entryLine line \<Longrightarrow>
     processLine cat st line = scan cat (TrimSpace line) st (TrimSpace line)"
  by (cases line)
     (auto simp: entryLine_def ignoredLine_def processLine_def TrimSpace_nil split: if_splits)


lemma processLine_some:
  assumes "ti st \<noteq> None"
  shows "(\<forall>e. processLine cat st line = Inl e \<longrightarrow>
             e = PanicWeirdFormat (''WTF: weird format: '' @ TrimSpace line) \<and>
             CHR ''l'' \<in> set (TrimSpace line)) \<and>
         (\<forall>st'. processLine cat st line = Inr st' \<longrightarrow> ti st' \<noteq> None)"
proof (cases "ignoredLine line")
  case True
  with assms show ?thesis by (simp add: processLine_ignored)
next
  case False
  show ?thesis
  proof (cases "entryLine line")
    case True
    from processLine_entry[OF True, of cat st] show ?thesis by auto
  next
    case nent: False
    from processLine_cont[OF False nent] scan_some[OF assms] show ?thesis by simp
  qed
qed

lemma parseLines_some:
  "ti st \<noteq> None \<Longrightarrow>
     (\<forall>e. parseLines cat st ls = Inl e \<longrightarrow>
        (\<exists>line. line \<in> set ls \<and> CHR ''l'' \<in> set (TrimSpace line) \<and>
                e = PanicWeirdFormat (''WTF: weird format: '' @ TrimSpace line))) \<and>
     (\<forall>st'. parseLines cat st ls = Inr st' \<longrightarrow> ti st' \<noteq> None)"
proof (induction ls arbitrary: st)
  case Nil
  then show ?case by simp
next
  case (Cons line ls)
  show ?case
  proof (cases "processLine cat st line")
    case (Inl e)
    with processLine_some[OF Cons.prems, of cat line] show ?thesis by auto
  next
    case (Inr st1)
    with processLine_some[OF Cons.prems, of cat line] have "ti st1 \<noteq> None" by simp
    from Cons.IH[OF this] Inr show ?thesis by auto
  qed
qed

lemma parseLines_entryFirst:
  "entryFirst ls \<Longrightarrow>
     (\<forall>e. parseLines cat st ls = Inl e \<longrightarrow>
        (\<exists>line. line \<in> set ls \<and> CHR ''l'' \<in> set (TrimSpace line) \<and>
                e = PanicWeirdFormat (''WTF: weird format: '' @ TrimSpace line)))"
proof (induction ls arbitrary: st)
  case Nil
  then show ?case by simp
next
  case (Cons line ls)
  show ?case
  proof (cases "ignoredLine line")
    case True
    with Cons.prems have "entryFirst ls" by (simp add: entryFirst_def)
    from Cons.IH[OF this, of st] True show ?thesis by (auto simp: processLine_ignored)
  next
    case False
    with Cons.prems have e: "entryLine line" by (simp add: entryFirst_def)
    from processLine_entry[OF e, of cat st] obtain st1 where
      p: "processLine cat st line = Inr st1" and t: "ti st1 \<noteq> None" by auto
    from parseLines_some[OF t, of cat ls] p show ?thesis by auto
  qed
qed

lemma processLine_noESC:
  assumes "CHR 0x5C \<notin> set line" and "esc st \<noteq> ESC" and "ti st \<noteq> None"
  shows "\<exists>st'. processLine cat st line = Inr st' \<and> esc st' \<noteq> ESC \<and> ti st' \<noteq> None"
proof (cases "ignoredLine line")
  case True
  with assms show ?thesis by (simp add: processLine_ignored)
next
  case False
  show ?thesis
  proof (cases "entryLine line")
    case True
    from processLine_entry[OF True, of cat st] assms show ?thesis by auto
  next
    case nent: False
    from assms(1) have "CHR 0x5C \<notin> set (TrimSpace line)" using set_TrimSpace[of line] by auto
    from scan_noESC[OF this assms(2,3)] processLine_cont[OF False nent] show ?thesis by simp
  qed
qed

lemma parseLines_noESC:
  "\<forall>line \<in> set ls. CHR 0x5C \<notin> set line \<Longrightarrow> esc st \<noteq> ESC \<Longrightarrow> ti st \<noteq> None \<or> entryFirst ls \<Longrightarrow>
     \<exists>st'. parseLines cat st ls = Inr st'"
proof (induction ls arbitrary: st)
  case Nil
  then show ?case by simp
next
  case (Cons line ls)
  from Cons.prems(1) have nb: "CHR 0x5C \<notin> set line" and rest: "\<forall>line \<in> set ls. CHR 0x5C \<notin> set line"
    by auto
  show ?case
  proof (cases "ti st \<noteq> None")
    case True
    from processLine_noESC[OF nb Cons.prems(2) True, of cat] obtain st1 where
      p: "processLine cat st line = Inr st1" and e: "esc st1 \<noteq> ESC" and t: "ti st1 \<noteq> None" by auto
    from Cons.IH[OF rest e] t p show ?thesis by auto
  next
    case False
    with Cons.prems(3) have ef: "entryFirst (line # ls)" by simp
    show ?thesis
    proof (cases "ignoredLine line")
      case True
      with ef have "entryFirst ls" by (simp add: entryFirst_def)
      with Cons.IH[OF rest Cons.prems(2), of ] True show ?thesis by (auto simp: processLine_ignored)
    next
      case nign: False
      with ef have e: "entryLine line" by (simp add: entryFirst_def)
      from processLine_entry[OF e, of cat st] obtain st1 where
        p: "processLine cat st line = Inr st1" and t: "ti st1 \<noteq> None" and e1: "esc st1 = esc st" by auto
      from Cons.IH[OF rest, of st1] e1 Cons.prems(2) t p show ?thesis by auto
    qed
  qed
qed

lemma step_weird:
  "esc st = ESC \<Longrightarrow> step cat s st (CHR ''l'') rest = Inl (PanicWeirdFormat (''WTF: weird format: '' @ s))"
  by (simp add: step_def stepESC_def isOctal_def)

text \<open>
  C4, as the code has it. The claim is that the source parser returns for every input,
  the escape \<open>\l\<close> in a string value included. The state machine panics by design when it
  reads \<open>l\<close> in the state \<open>ESC\<close>. For an input whose first line that is not skipped opens an
  entry: the parser returns the entries, or panics with the weird-format message of a
  line that has an \<open>l\<close>; an input without a backslash always returns; and with an entry at
  hand one step of the machine fails exactly when it reads \<open>l\<close> in the state \<open>ESC\<close>.
\<close>

theorem parser_returns_unless_weird_format:
  assumes "entryFirst (splitOn (CHR 0x0A) src)"
  shows "((\<exists>ts. parseSource cat src = Inr ts) \<or>
          (\<exists>line. line \<in> set (splitOn (CHR 0x0A) src) \<and> CHR ''l'' \<in> set (TrimSpace line) \<and>
                  parseSource cat src =
                    Inl (PanicWeirdFormat (''WTF: weird format: '' @ TrimSpace line)))) \<and>
         (CHR 0x5C \<notin> set src \<longrightarrow> (\<exists>ts. parseSource cat src = Inr ts)) \<and>
         (\<forall>st s c rest. ti st \<noteq> None \<longrightarrow>
            (\<exists>e. step cat s st c rest = Inl e) = (esc st = ESC \<and> c = CHR ''l''))"
proof (intro conjI allI impI)
  show "(\<exists>ts. parseSource cat src = Inr ts) \<or>
          (\<exists>line. line \<in> set (splitOn (CHR 0x0A) src) \<and> CHR ''l'' \<in> set (TrimSpace line) \<and>
                  parseSource cat src =
                    Inl (PanicWeirdFormat (''WTF: weird format: '' @ TrimSpace line)))"
  proof (cases "parseLines cat initState (splitOn (CHR 0x0A) src)")
    case (Inl e)
    with parseLines_entryFirst[OF assms, of cat initState] show ?thesis
      by (auto simp: parseSource_def)
  next
    case (Inr st')
    then show ?thesis by (simp add: parseSource_def)
  qed
next
  assume nb: "CHR 0x5C \<notin> set src"
  have "\<forall>line \<in> set (splitOn (CHR 0x0A) src). CHR 0x5C \<notin> set line"
    using nb set_splitOn by fastforce
  from parseLines_noESC[OF this, of initState cat] assms
  show "\<exists>ts. parseSource cat src = Inr ts"
    by (auto simp: parseSource_def initState_def)
next
  fix st :: pstate and s c rest
  assume t: "ti st \<noteq> None"
  show "(\<exists>e. step cat s st c rest = Inl e) = (esc st = ESC \<and> c = CHR ''l'')"
    using step_fail[of cat s st c rest] step_weird[of st cat s rest] t by auto
qed

text \<open>C4 as stated fails on an entry with the string value \<open>\l\<close>.\<close>

theorem weird_format_counterexample:
  "parseSource exampleCatalog (''a,\<newline> x='' @ [CHR 0x5C] @ ''l,\<newline>'')
   = Inl (PanicWeirdFormat (''WTF: weird format: x='' @ [CHR 0x5C] @ ''l,''))"
  by (simp add: parse_eval)

text \<open>An input without a backslash returns; \<open>l\<close> read in the state \<open>ESC\<close> is the panic.\<close>

theorem parser_returns_unless_weird_format_witness:
  "entryFirst (splitOn (CHR 0x0A) ''a,\<newline> am, cols#80,\<newline>'') \<and>
   (\<exists>ts. parseSource exampleCatalog ''a,\<newline> am, cols#80,\<newline>'' = Inr ts) \<and>
   step exampleCatalog ''l'' (initState\<lparr>ti := Some (newTerminfo [''a'']), esc := ESC\<rparr>) (CHR ''l'') []
     = Inl (PanicWeirdFormat ''WTF: weird format: l'')"
proof -
  have e: "entryFirst (splitOn (CHR 0x0A) ''a,\<newline> am, cols#80,\<newline>'')"
    by (simp add: entryFirst_def entryLine_def ignoredLine_def parse_eval)
  have nb: "CHR 0x5C \<notin> set ''a,\<newline> am, cols#80,\<newline>''" by simp
  have t: "ti (initState\<lparr>ti := Some (newTerminfo [''a'']), esc := ESC\<rparr>) \<noteq> None" by simp
  note th = parser_returns_unless_weird_format[OF e, of exampleCatalog]
  from th nb have r: "\<exists>ts. parseSource exampleCatalog ''a,\<newline> am, cols#80,\<newline>'' = Inr ts" by blast
  from th t have "\<exists>e. step exampleCatalog ''l'' (initState\<lparr>ti := Some (newTerminfo [''a'']), esc := ESC\<rparr>) (CHR ''l'') [] = Inl e"
    by (simp add: initState_def)
  then have s: "step exampleCatalog ''l'' (initState\<lparr>ti := Some (newTerminfo [''a'']), esc := ESC\<rparr>) (CHR ''l'') []
     = Inl (PanicWeirdFormat ''WTF: weird format: l'')"
    by (simp add: step_def stepESC_def isOctal_def initState_def)
  from e r s show ?thesis by simp
qed











lemma parseDigits_err:
  "snd (parseDigits base n cs) \<Longrightarrow>
     fst (parseDigits base n cs) = 0 \<or> fst (parseDigits base n cs) = 2 ^ 32 - 1"
  by (induction cs arbitrary: n) (auto split: option.splits if_splits)

lemma ParseUint_err:
  "snd (ParseUint v base) \<Longrightarrow> fst (ParseUint v base) = 0 \<or> fst (ParseUint v base) = 2 ^ 32 - 1"
  using parseDigits_err[of base 0 v] by (cases "v = []") (simp_all add: ParseUint_def)

text \<open>
  C3, as the code has it. The claim is that a number that does not parse is logged and
  the capability dropped. \<open>addCap\<close> logs and goes on with the value \<open>ParseUint\<close> returned
  beside the error: on the comma that ends a numeric token whose text \<open>v\<close> (after a
  prefix \<open>0x\<close>) fails to parse, the diagnostic is logged, the value, 0 or \<open>2^32 - 1\<close>, is
  stored under the capability name exactly as a valid one is (standard index, or
  extended index and name), and the machine is back in \<open>GROUND\<close>.
\<close>

theorem invalid_number_is_stored:
  assumes "esc st = INT'" and "ti st = Some t"
    and "v = (if take 2 (buf st) = ''0x'' then drop 2 (buf st) else buf st)"
    and "base = (if take 2 (buf st) = ''0x'' then 16 else 10)"
    and "snd (ParseUint v base)"
  shows "\<exists>st' t'. step cat s st (CHR '','') rest = Inr (st', 0) \<and> ti st' = Some t' \<and>
           logs st' = logs st @ [InvalidNumber v] \<and>
           (fst (ParseUint v base) = 0 \<or> fst (ParseUint v base) = 2 ^ 32 - 1) \<and>
           (case numNameCaps cat (capName st) of
              Some cap \<Rightarrow> Nums t' cap = Some (int (fst (ParseUint v base)))
            | None \<Rightarrow>
                (case extNumNameCaps st (capName st) of
                   Some cap \<Rightarrow>
                     ExtNums t' cap = Some (int (fst (ParseUint v base))) \<and>
                     ExtNumNames t' cap = Some (capName st)
                 | None \<Rightarrow>
                     ExtNums t' (extNumIdx st) = Some (int (fst (ParseUint v base))) \<and>
                     ExtNumNames t' (extNumIdx st) = Some (capName st))) \<and>
           esc st' = GROUND \<and> buf st' = [] \<and> capName st' = [] \<and> tis st' = tis st"
  using assms ParseUint_err[of v base]
  by (auto simp: step_def stepINT_def addCap_def addCapNum_def Let_def split: option.splits)

text \<open>C3 as stated fails: \<open>cols#zz\<close> stores 0 for \<open>cols\<close>.\<close>

theorem invalid_number_counterexample:
  "map_sum id (map (\<lambda>t. (Names t, Nums t 0)))
     (parseSource exampleCatalog ''a,\<newline> cols#zz,\<newline>'') = Inr [([''a''], Some 0)]"
  by (simp add: parse_eval)

text \<open>The same token, from the state the machine is in at its comma.\<close>

theorem invalid_number_is_stored_witness:
  "snd (ParseUint ''zz'' 10) \<and>
   (\<exists>st' t'. step exampleCatalog ''cols#zz,''
               (initState\<lparr>ti := Some (newTerminfo [''a'']), capName := ''cols'', esc := INT',
                           buf := ''zz''\<rparr>) (CHR '','') [] = Inr (st', 0) \<and>
             ti st' = Some t' \<and> Nums t' 0 = Some 0 \<and> logs st' = [InvalidNumber ''zz''])"
proof -
  let ?st = "initState\<lparr>ti := Some (newTerminfo [''a'']), capName := ''cols'', esc := INT', buf := ''zz''\<rparr>"
  have e: "snd (ParseUint ''zz'' 10)" by (simp add: ParseUint_def digitVal_def lower_def)
  have f: "fst (ParseUint ''zz'' 10) = 0" by (simp add: ParseUint_def digitVal_def lower_def)
  have h1: "esc ?st = INT'" and h2: "ti ?st = Some (newTerminfo [''a''])"
    and h3: "''zz'' = (if take 2 (buf ?st) = ''0x'' then drop 2 (buf ?st) else buf ?st)"
    and h4: "10 = (if take 2 (buf ?st) = ''0x'' then 16 else (10::nat))"
    by simp_all
  from invalid_number_is_stored[OF h1 h2 h3 h4 e, of exampleCatalog "''cols#zz,''" "[]"]
  obtain st' t' where
    "step exampleCatalog ''cols#zz,'' ?st (CHR '','') [] = Inr (st', 0)" "ti st' = Some t'"
    "logs st' = logs ?st @ [InvalidNumber ''zz'']"
    "(case numNameCaps exampleCatalog (capName ?st) of
              Some cap \<Rightarrow> Nums t' cap = Some (int (fst (ParseUint ''zz'' 10)))
            | None \<Rightarrow> True)"
    by (auto split: option.splits)
  then show ?thesis using e f
    by (auto simp: exampleCatalog_def initState_def)
qed




end
